theory Spec2Isabelle
  imports Main "HOL-Library.AList"
begin

section \<open>Data model of AuthProvider\<close>

text \<open>
  The \<open>User\<close> type comes from the auth SDK; the provider reads only its \<open>id\<close>.
  A \<open>Notification\<close> has the eleven fields the source declares; \<open>data\<close> (declared
  \<open>any\<close>) is carried as text and the two dates as epoch milliseconds.
  Strings are byte strings (UTF-8).
\<close>

record user =
  user_id :: string

record notification =
  n_id :: string
  n_from :: string
  n_to :: string
  n_collection :: string
  n_type :: string
  n_message :: string
  n_data :: string
  n_link :: string
  n_viewed :: bool
  n_created_at :: int
  n_updated_at :: int

text \<open>
  The values a field of the state object may hold. \<open>ProfileInput\<close> is declared in
  another module and no field of it is read here: it is the type parameter \<open>'p\<close>.
\<close>

datatype 'p jsval =
    JUndefined
  | JNull
  | JBool bool
  | JStr string
  | JUser user
  | JProfile 'p
  | JNotifications "notification list"

datatype error = TypeError | Rejection | Error string

text \<open>A promise of an external collaborator, once settled.\<close>

datatype 'a settled = Fulfilled 'a | Rejected

text \<open>
  The state is a JavaScript object, kept as the list of its own properties;
  \<open>State\<close> declares seven of them. What the provider and its consumers do with
  the object is read a property by name (\<open>map_of\<close>): the order of the list stands
  for nothing, and JavaScript's own enumeration order (integer-like names first) is
  not modelled.
\<close>

type_synonym 'p state = "(string \<times> 'p jsval) list"

text \<open>
  \<open>reducer(state, {type, payload})\<close> returns \<open>{...state, [type]: payload}\<close>: the
  spread copies every property, the computed key then overwrites the property named
  \<open>type\<close>, or adds it.
\<close>

definition reducer :: "'p state \<Rightarrow> string \<times> 'p jsval \<Rightarrow> 'p state" where
  "reducer state a = AList.update (fst a) (snd a) state"

text \<open>
  \<open>x?.id\<close> and \<open>x.id\<close> on the values above (\<open>None\<close> is \<open>undefined\<close>;
  reading a property of \<open>null\<close> or \<open>undefined\<close> throws), \<open>Boolean\<close> on the
  result, and its conversion to a string inside a template literal.
\<close>

fun optional_id :: "'p jsval \<Rightarrow> string option" where
  "optional_id (JUser u) = Some (user_id u)"
| "optional_id _ = None"

fun member_id :: "'p jsval \<Rightarrow> error + string option" where
  "member_id JUndefined = Inl TypeError"
| "member_id JNull = Inl TypeError"
| "member_id (JUser u) = Inr (Some (user_id u))"
| "member_id _ = Inr None"

fun Boolean :: "string option \<Rightarrow> bool" where
  "Boolean None = False"
| "Boolean (Some s) = (s \<noteq> [])"

fun template :: "string option \<Rightarrow> string" where
  "template None = ''undefined''"
| "template (Some s) = s"

subsection \<open>Effects\<close>

text \<open>
  What a callback does, in the order it does it. \<open>AuthSignOut\<close>, \<open>GetCurrentProfile\<close>
  and \<open>GetNotifications\<close> are the three awaited calls.
\<close>

datatype 'p effect =
    Dispatch string "'p jsval"
  | AuthSignOut
  | RouterReplace string
  | ToastSuccess string
  | GetCurrentProfile
  | GetNotifications
  | ConsoleLog

record 'p props =
  defaultUser :: "'p jsval"
  defaultProfile :: "'p jsval"
  notifications :: "notification list"

definition initialState :: "'p props \<Rightarrow> 'p state" where
  "initialState p =
     [(''loading'', JBool True),
      (''authenticated'', JBool (Boolean (optional_id (defaultUser p)))),
      (''user'', defaultUser p),
      (''profile'', defaultProfile p),
      (''error'', JStr ''''),
      (''view'', JStr ''''),
      (''notifications'', JNotifications (notifications p))]"

definition setUser :: "'p jsval \<Rightarrow> 'p effect list" where
  "setUser v =
     [Dispatch ''user'' v,
      Dispatch ''authenticated'' (JBool (Boolean (optional_id v)))]"

definition setProfile :: "'p jsval \<Rightarrow> 'p effect list" where
  "setProfile v = [Dispatch ''profile'' v]"

definition setError :: "string \<Rightarrow> 'p effect list" where
  "setError v = [Dispatch ''error'' (JStr v)]"

definition setView :: "'p jsval \<Rightarrow> 'p effect list" where
  "setView v = [Dispatch ''view'' v]"

definition setNotifications :: "notification list \<Rightarrow> 'p effect list" where
  "setNotifications v = [Dispatch ''notifications'' (JNotifications v)]"

text \<open>
  The dispatches of a callback are queued and reduced in order. Updates queued by
  one synchronous stretch of a callback are rendered together (the component is a
  client component of the app router, hence React 18 batching), so the snapshots a
  consumer can see are those at the awaited calls and the one at the end.
\<close>

fun dispatched :: "'p effect list \<Rightarrow> (string \<times> 'p jsval) list" where
  "dispatched [] = []"
| "dispatched (Dispatch t v # es) = (t, v) # dispatched es"
| "dispatched (_ # es) = dispatched es"

definition apply_effects :: "'p state \<Rightarrow> 'p effect list \<Rightarrow> 'p state" where
  "apply_effects s es = foldl reducer s (dispatched es)"

fun snapshots :: "'p state \<Rightarrow> 'p effect list \<Rightarrow> 'p state list" where
  "snapshots s [] = [s]"
| "snapshots s (Dispatch t v # es) = snapshots (reducer s (t, v)) es"
| "snapshots s (AuthSignOut # es) = s # snapshots s es"
| "snapshots s (GetCurrentProfile # es) = s # snapshots s es"
| "snapshots s (GetNotifications # es) = s # snapshots s es"
| "snapshots s (_ # es) = snapshots s es"

subsection \<open>The redirect URL\<close>

text \<open>
  A parsed hierarchical URL: \<open>base\<close> is the scheme, host and port as serialised
  (\<open>https://example.com\<close>), \<open>hash\<close> is empty or starts with \<open>#\<close>.
  \<open>searchParams.set\<close> overwrites the first pair of that name and drops the others,
  or appends; \<open>toString\<close> serialises the pairs as a form-urlencoded query.
\<close>

record url =
  base :: string
  pathname :: string
  searchParams :: "(string \<times> string) list"
  hash :: string

fun searchParams_set :: "string \<Rightarrow> string \<Rightarrow> (string \<times> string) list \<Rightarrow> (string \<times> string) list" where
  "searchParams_set k v [] = [(k, v)]"
| "searchParams_set k v (p # ps) =
     (if fst p = k then (k, v) # filter (\<lambda>q. fst q \<noteq> k) ps
      else p # searchParams_set k v ps)"


definition hex_digit :: "nat \<Rightarrow> char" where
  "hex_digit n = ''0123456789ABCDEF'' ! n"

definition form_safe :: "char \<Rightarrow> bool" where
  "form_safe c =
     (let n = (of_char c :: nat)
      in n = 42 \<or> n = 45 \<or> n = 46 \<or> n = 95 \<or>
         (48 \<le> n \<and> n \<le> 57) \<or> (65 \<le> n \<and> n \<le> 90) \<or> (97 \<le> n \<and> n \<le> 122))"

definition encode_byte :: "char \<Rightarrow> string" where
  "encode_byte c =
     (let n = (of_char c :: nat)
      in if n = 32 then ''+''
         else if form_safe c then [c]
         else [CHR ''%'', hex_digit (n div 16), hex_digit (n mod 16)])"

definition form_encode :: "string \<Rightarrow> string" where
  "form_encode s = concat (map encode_byte s)"

fun form_serialize :: "(string \<times> string) list \<Rightarrow> string" where
  "form_serialize [] = []"
| "form_serialize [p] = form_encode (fst p) @ ''='' @ form_encode (snd p)"
| "form_serialize (p # ps) =
     form_encode (fst p) @ ''='' @ form_encode (snd p) @ ''&'' @ form_serialize ps"

definition toString :: "url \<Rightarrow> string" where
  "toString u =
     base u @ pathname u @
     (if searchParams u = [] then [] else ''?'' @ form_serialize (searchParams u)) @
     hash u"

subsection \<open>The callbacks of the provider\<close>

text \<open>
  \<open>actionSignOut\<close>. \<open>site\<close> is \<open>new URL(process.env.NEXT_PUBLIC_SITE_URL)\<close>,
  \<open>None\<close> where the constructor throws; \<open>pathName\<close> is the variable the callback
  closed over when \<open>useCallback\<close> made it (which callback a consumer holds is
  modelled below, with the context value); \<open>signOut_result\<close> is how the provider's
  promise settles (its \<open>error\<close> field, which the callback ignores, when it is
  fulfilled). The result is what the callback did and the error it ended with, if any.
\<close>

definition actionSignOut ::
  "url option \<Rightarrow> string \<Rightarrow> string option settled \<Rightarrow> 'p effect list \<times> error option" where
  "actionSignOut site pathName signOut_result =
     (case site of
        None \<Rightarrow> ([], Some TypeError)
      | Some u \<Rightarrow>
          (let redirectUrl = u\<lparr>pathname := ''/''\<rparr>;
               redirectUrl = redirectUrl\<lparr>searchParams :=
                 searchParams_set ''redirectTo'' pathName (searchParams redirectUrl)\<rparr>
           in case signOut_result of
                Rejected \<Rightarrow> ([AuthSignOut], Some Rejection)
              | Fulfilled _ \<Rightarrow>
                  ([AuthSignOut, RouterReplace (toString redirectUrl)]
                   @ setUser JNull
                   @ setProfile JNull
                   @ [ToastSuccess ''You have been signed out''], None)))"

text \<open>
  The handler given to \<open>onAuthStateChange\<close>; of the session it reads only \<open>user\<close>.
  \<open>profile_result\<close> and \<open>notifications_result\<close> are how the two awaited fetches settle.
\<close>

record session =
  session_user :: user

definition onAuthStateChange ::
  "session option \<Rightarrow> 'p jsval settled \<Rightarrow> notification list settled
   \<Rightarrow> 'p effect list \<times> error option" where
  "onAuthStateChange currentSession profile_result notifications_result =
     (case currentSession of
        Some s \<Rightarrow>
          (case profile_result of
             Rejected \<Rightarrow>
               (setUser (JUser (session_user s)) @ [GetCurrentProfile], Some Rejection)
           | Fulfilled profile \<Rightarrow>
               (case notifications_result of
                  Rejected \<Rightarrow>
                    (setUser (JUser (session_user s)) @ [GetCurrentProfile, GetNotifications],
                     Some Rejection)
                | Fulfilled ns \<Rightarrow>
                    (setUser (JUser (session_user s)) @ [GetCurrentProfile, GetNotifications]
                     @ setProfile profile
                     @ setNotifications ns, None)))
      | None \<Rightarrow> (setUser JNull @ setProfile JNull @ setNotifications [], None))"

text \<open>
  The handler of the \<open>postgres_changes\<close> subscription. The change feed delivers
  \<open>new\<close> with an insert or update and \<open>old\<close> with a delete; the handler reads
  neither otherwise. The \<open>notifications\<close> it reads is the variable in scope at the
  effect: the \<open>notifications\<close> property of the provider's props.
\<close>

record payload =
  eventType :: string
  new :: notification
  old :: notification

definition postgres_changes :: "'p props \<Rightarrow> payload \<Rightarrow> 'p effect list" where
  "postgres_changes p payload =
     ConsoleLog #
     (if eventType payload = ''INSERT'' then
        setNotifications (notifications p @ [new payload])
        @ [ToastSuccess (n_message (new payload))]
      else if eventType payload = ''UPDATE'' then
        setNotifications
          (map (\<lambda>notification.
                  if n_id notification = n_id (new payload) then new payload
                  else notification)
               (notifications p))
        @ [ToastSuccess (n_message (new payload))]
      else if eventType payload = ''DELETE'' then
        setNotifications (filter (\<lambda>t. n_id t \<noteq> n_id (old payload)) (notifications p))
      else [])"

text \<open>
  The \<open>filter\<close> of the subscription, built from \<open>state.user.id\<close> when the effect
  runs. A property the state object lacks reads as \<open>undefined\<close>.
\<close>

definition state_get :: "'p state \<Rightarrow> string \<Rightarrow> 'p jsval" where
  "state_get state k = (case map_of state k of None \<Rightarrow> JUndefined | Some v \<Rightarrow> v)"

definition channel_filter :: "'p state \<Rightarrow> error + string" where
  "channel_filter state =
     (case member_id (state_get state ''user'') of
        Inl e \<Rightarrow> Inl e
      | Inr i \<Rightarrow> Inr (''to=eq.'' @ template i))"

subsection \<open>The context and its hook\<close>

text \<open>
  A context value is \<open>undefined\<close> or a pair \<open>[State, Actions]\<close> whose components
  may be \<open>null\<close>. \<open>createContext([null, null])\<close> fixes the default; \<open>useContext\<close>
  returns the value of the nearest provider, or the default when there is none.
\<close>

datatype ('s, 'a) ctx = CtxUndefined | CtxPair "'s option" "'a option"

definition AuthContext :: "('s, 'a) ctx" where
  "AuthContext = CtxPair None None"

definition useContext :: "('s, 'a) ctx option \<Rightarrow> ('s, 'a) ctx" where
  "useContext provider = (case provider of None \<Rightarrow> AuthContext | Some v \<Rightarrow> v)"

definition useAuth :: "('s, 'a) ctx option \<Rightarrow> error + ('s, 'a) ctx" where
  "useAuth provider =
     (let ctx = useContext provider
      in if ctx = CtxUndefined
         then Inl (Error ''useAuth must be used within an AuthProvider'')
         else Inr ctx)"

subsection \<open>Runs of the provider\<close>

datatype 'p setter =
    SetError string
  | SetProfile "'p jsval"
  | SetView "'p jsval"
  | SetNotifications "notification list"
  | SetUser "'p jsval"

fun setter_effects :: "'p setter \<Rightarrow> 'p effect list" where
  "setter_effects (SetError x) = setError x"
| "setter_effects (SetProfile x) = setProfile x"
| "setter_effects (SetView x) = setView x"
| "setter_effects (SetNotifications x) = setNotifications x"
| "setter_effects (SetUser x) = setUser x"

text \<open>
  Everything that can reach the state after the first render: an auth event, a
  change-feed event, a setter, a sign-out.
\<close>

datatype 'p event =
    AuthStateChange "session option" "'p jsval settled" "notification list settled"
  | PostgresChanges payload
  | Call "'p setter"
  | SignOut "url option" string "string option settled"

fun effects_of :: "'p props \<Rightarrow> 'p event \<Rightarrow> 'p effect list" where
  "effects_of p (AuthStateChange s pr nr) = fst (onAuthStateChange s pr nr)"
| "effects_of p (PostgresChanges pl) = postgres_changes p pl"
| "effects_of p (Call c) = setter_effects c"
| "effects_of p (SignOut site pathName r) = fst (actionSignOut site pathName r)"

definition step :: "'p props \<Rightarrow> 'p state \<Rightarrow> 'p event \<Rightarrow> 'p state" where
  "step p s e = apply_effects s (effects_of p e)"

definition run :: "'p props \<Rightarrow> 'p event list \<Rightarrow> 'p state" where
  "run p es = foldl (step p) (initialState p) es"

text \<open>
  \<open>observed\<close> lists every snapshot the reducer hands to a render. It lists more than
  consumers see: a snapshot whose \<open>user\<close> is null makes the render of the provider
  throw (\<open>channel_filter\<close> below, and the dependency array of the same effect), after
  which nothing is rendered any more.
\<close>

fun observed :: "'p props \<Rightarrow> 'p state \<Rightarrow> 'p event list \<Rightarrow> 'p state list" where
  "observed p s [] = []"
| "observed p s (e # es) = snapshots s (effects_of p e) @ observed p (step p s e) es"

subsection \<open>The context value consumers hold\<close>

text \<open>
  Each render reads \<open>usePathname()\<close>; \<open>useCallback\<close> makes a new \<open>actionSignOut\<close>
  when the pathname has changed; \<open>useMemo\<close> makes a new context value, holding the
  \<open>actionSignOut\<close> of that render, when \<open>state\<close> has changed, and only then. A
  dispatch always changes \<open>state\<close>, the reducer returning a new object. So the
  mounted provider is its state, the pathname of its last render, and the pathname
  closed over by the \<open>actionSignOut\<close> inside the context value.
\<close>

record 'p mounted =
  current_state :: "'p state"
  current_pathName :: string
  value_pathName :: string

definition mount :: "'p props \<Rightarrow> string \<Rightarrow> 'p mounted" where
  "mount p path =
     \<lparr>current_state = initialState p, current_pathName = path, value_pathName = path\<rparr>"

text \<open>
  What reaches a mounted provider: a route change, or one of the events above, the
  sign-out now being the call of the \<open>actionSignOut\<close> the context value holds.
\<close>

datatype 'p input =
    RouteChange string
  | AuthInput "session option" "'p jsval settled" "notification list settled"
  | FeedInput payload
  | SetterInput "'p setter"
  | SignOutInput "url option" "string option settled"

fun input_effects :: "'p props \<Rightarrow> 'p mounted \<Rightarrow> 'p input \<Rightarrow> 'p effect list" where
  "input_effects p m (RouteChange x) = []"
| "input_effects p m (AuthInput s pr nr) = effects_of p (AuthStateChange s pr nr)"
| "input_effects p m (FeedInput pl) = effects_of p (PostgresChanges pl)"
| "input_effects p m (SetterInput c) = effects_of p (Call c)"
| "input_effects p m (SignOutInput site r) = effects_of p (SignOut site (value_pathName m) r)"

fun next_mounted :: "'p props \<Rightarrow> 'p mounted \<Rightarrow> 'p input \<Rightarrow> 'p mounted" where
  "next_mounted p m (RouteChange x) = m\<lparr>current_pathName := x\<rparr>"
| "next_mounted p m i =
     (let es = input_effects p m i
      in m\<lparr>current_state := apply_effects (current_state m) es,
           value_pathName :=
             (if dispatched es = [] then value_pathName m else current_pathName m)\<rparr>)"

definition mounted_run :: "'p props \<Rightarrow> string \<Rightarrow> 'p input list \<Rightarrow> 'p mounted" where
  "mounted_run p path inputs = foldl (next_mounted p) (mount p path) inputs"

section \<open>What the specification says, as definitions\<close>

text \<open>A value has an identity when it is a user whose \<open>id\<close> is not empty.\<close>

fun has_identity :: "'p jsval \<Rightarrow> bool" where
  "has_identity (JUser u) = (user_id u \<noteq> [])"
| "has_identity _ = False"

text \<open>The value a setter gives a field, and the last value a sequence of setters gives it.\<close>

fun set_by :: "'p setter \<Rightarrow> string \<Rightarrow> 'p jsval option" where
  "set_by (SetError x) f = (if f = ''error'' then Some (JStr x) else None)"
| "set_by (SetProfile x) f = (if f = ''profile'' then Some x else None)"
| "set_by (SetView x) f = (if f = ''view'' then Some x else None)"
| "set_by (SetNotifications x) f =
     (if f = ''notifications'' then Some (JNotifications x) else None)"
| "set_by (SetUser x) f =
     (if f = ''user'' then Some x
      else if f = ''authenticated'' then Some (JBool (has_identity x))
      else None)"

fun last_set :: "string \<Rightarrow> 'p setter list \<Rightarrow> 'p jsval option" where
  "last_set f [] = None"
| "last_set f (c # cs) = (case last_set f cs of Some v \<Rightarrow> Some v | None \<Rightarrow> set_by c f)"

text \<open>The invariant between \<open>authenticated\<close> and \<open>user\<close>.\<close>

definition consistent :: "'p state \<Rightarrow> bool" where
  "consistent s =
     (map_of s ''authenticated'' = Some (JBool (has_identity (state_get s ''user''))))"

text \<open>The URL sign-out navigates to: the site URL with its path and one parameter replaced.\<close>

definition redirect_target :: "url \<Rightarrow> string \<Rightarrow> url" where
  "redirect_target u p =
     u\<lparr>pathname := ''/'', searchParams := searchParams_set ''redirectTo'' p (searchParams u)\<rparr>"

subsection \<open>Concrete inputs\<close>

definition change :: "string \<Rightarrow> notification \<Rightarrow> payload" where
  "change t n = \<lparr>eventType = t, new = n, old = n\<rparr>"

definition mk_notification :: "string \<Rightarrow> string \<Rightarrow> notification" where
  "mk_notification i m =
     \<lparr>n_id = i, n_from = ''system'', n_to = ''u1'', n_collection = ''bookings'',
      n_type = ''info'', n_message = m, n_data = ''{}'', n_link = ''/'',
      n_viewed = False, n_created_at = 0, n_updated_at = 0\<rparr>"

definition site0 :: url where
  "site0 = \<lparr>base = ''https://example.com'', pathname = ''/app'', searchParams = [], hash = []\<rparr>"

definition props0 :: "unit props" where
  "props0 =
     \<lparr>defaultUser = JUser \<lparr>user_id = ''u1''\<rparr>, defaultProfile = JNull, notifications = []\<rparr>"

definition session0 :: session where
  "session0 = \<lparr>session_user = \<lparr>user_id = ''u1''\<rparr>\<rparr>"

section \<open>Properties\<close>

subsection \<open>The reducer and the dispatch queue\<close>

lemma map_of_reducer:
  "map_of (reducer s a) k = (if k = fst a then Some (snd a) else map_of s k)"
  by (simp add: reducer_def update_conv')

lemma Boolean_optional_id: "Boolean (optional_id v) = has_identity v"
  by (cases v) simp_all

lemma has_identity_iff: "has_identity v \<longleftrightarrow> (\<exists>w. v = JUser w \<and> user_id w \<noteq> [])"
  by (cases v) simp_all

lemma dispatched_append: "dispatched (xs @ ys) = dispatched xs @ dispatched ys"
  by (induction xs rule: dispatched.induct) simp_all

lemma apply_effects_append:
  "apply_effects s (xs @ ys) = apply_effects (apply_effects s xs) ys"
  by (simp add: apply_effects_def dispatched_append)

lemma apply_effects_Nil: "apply_effects s [] = s"
  by (simp add: apply_effects_def)

lemma map_of_apply_setter:
  "map_of (apply_effects s (setter_effects c)) f =
     (case set_by c f of Some v \<Rightarrow> Some v | None \<Rightarrow> map_of s f)"
  by (cases c)
     (simp_all add: apply_effects_def setError_def setProfile_def setView_def
        setNotifications_def setUser_def map_of_reducer Boolean_optional_id)

lemma map_of_apply_setters:
  "map_of (apply_effects s (concat (map setter_effects cs))) f =
     (case last_set f cs of Some v \<Rightarrow> Some v | None \<Rightarrow> map_of s f)"
proof (induction cs arbitrary: s)
  case Nil
  show ?case by (simp add: apply_effects_Nil)
next
  case (Cons c cs)
  show ?case
    by (simp add: apply_effects_append Cons.IH map_of_apply_setter split: option.split)
qed

text \<open>
  C3. \<open>reducer\<close> gives the addressed field the new value and leaves every other
  field as it was. Hence after any sequence of \<open>setError\<close>, \<open>setProfile\<close>, \<open>setView\<close>,
  \<open>setNotifications\<close> and \<open>setUser\<close> every field holds the last value set for
  it, or the value it had before when nothing set it.
\<close>

theorem reducer_replaces_one_field:
  "map_of (reducer s (f, v)) f = Some v
   \<and> (\<forall>g. g \<noteq> f \<longrightarrow> map_of (reducer s (f, v)) g = map_of s g)
   \<and> (\<forall>g. map_of (apply_effects s (concat (map setter_effects cs))) g =
          (case last_set g cs of Some x \<Rightarrow> Some x | None \<Rightarrow> map_of s g))"
  by (simp add: map_of_reducer map_of_apply_setters)

theorem reducer_replaces_one_field_witness:
  "map_of (reducer (initialState props0) (''view'', JStr ''menu'')) ''view'' = Some (JStr ''menu'')
   \<and> ''error'' \<noteq> ''view''
   \<and> map_of (reducer (initialState props0) (''view'', JStr ''menu'')) ''error'' = Some (JStr [])
   \<and> map_of (apply_effects (initialState props0)
        (concat (map setter_effects [SetError ''a'', SetView JNull, SetError ''b''])))
        ''error'' = Some (JStr ''b'')"
  using reducer_replaces_one_field [of "initialState props0" "''view''" "JStr ''menu''"
      "[SetError ''a'', SetView JNull, SetError ''b'']"]
  by (simp add: initialState_def props0_def)

subsection \<open>The snapshots a consumer can see\<close>

lemma snapshots_nonempty: "snapshots s es \<noteq> []"
  by (induction s es rule: snapshots.induct) simp_all

lemma last_snapshots: "last (snapshots s es) = apply_effects s es"
  by (induction s es rule: snapshots.induct)
     (simp_all add: apply_effects_def snapshots_nonempty)

lemma step_in_snapshots: "step p s e \<in> set (snapshots s (effects_of p e))"
  using last_in_set [OF snapshots_nonempty, of s "effects_of p e"]
  by (simp add: step_def last_snapshots)

lemmas consistent_simps =
  consistent_def state_get_def map_of_reducer Boolean_optional_id

lemma snapshots_consistent:
  "consistent s \<Longrightarrow> x \<in> set (snapshots s (effects_of p e)) \<Longrightarrow> consistent x"
proof (cases e)
  case (AuthStateChange c pr nr)
  assume "consistent s" "x \<in> set (snapshots s (effects_of p e))"
  with AuthStateChange show ?thesis
    by (auto simp: onAuthStateChange_def setUser_def setProfile_def setNotifications_def
          consistent_simps split: option.splits settled.splits)
next
  case (PostgresChanges pl)
  assume "consistent s" "x \<in> set (snapshots s (effects_of p e))"
  with PostgresChanges show ?thesis
    by (auto simp: postgres_changes_def setNotifications_def consistent_simps
          split: if_splits)
next
  case (Call c)
  assume "consistent s" "x \<in> set (snapshots s (effects_of p e))"
  with Call show ?thesis
    by (cases c)
       (auto simp: setError_def setProfile_def setView_def setNotifications_def setUser_def
          consistent_simps)
next
  case (SignOut site pathName r)
  assume "consistent s" "x \<in> set (snapshots s (effects_of p e))"
  with SignOut show ?thesis
    by (auto simp: actionSignOut_def setUser_def setProfile_def Let_def
          consistent_simps split: option.splits settled.splits)
qed

lemma observed_consistent:
  "consistent s \<Longrightarrow> x \<in> set (observed p s es) \<Longrightarrow> consistent x"
proof (induction es arbitrary: s)
  case Nil
  then show ?case by simp
next
  case (Cons e es)
  from Cons.prems(1) have "consistent (step p s e)"
    using snapshots_consistent step_in_snapshots by blast
  with Cons show ?case
    using snapshots_consistent by auto
qed

lemma consistent_initialState: "consistent (initialState p)"
  by (simp add: consistent_def initialState_def state_get_def Boolean_optional_id)

text \<open>
  C2. After \<open>setUser u\<close>, for every value \<open>u\<close>, \<open>user\<close> is \<open>u\<close> and
  \<open>authenticated\<close> is true exactly when \<open>u\<close> is a user with a non-empty id. The two
  dispatches of \<open>setUser\<close> are rendered together: the only snapshot \<open>setUser\<close>
  produces is the one with both fields written. The initial snapshot satisfies the
  same equation, and so does every snapshot a consumer can see in any run of the
  provider.
\<close>

theorem setUser_authenticated_consistent:
  "map_of (apply_effects s (setUser u)) ''user'' = Some u
   \<and> map_of (apply_effects s (setUser u)) ''authenticated''
       = Some (JBool (\<exists>w. u = JUser w \<and> user_id w \<noteq> []))
   \<and> snapshots s (setUser u) = [apply_effects s (setUser u)]
   \<and> map_of (initialState p) ''authenticated''
       = Some (JBool (\<exists>w. defaultUser p = JUser w \<and> user_id w \<noteq> []))
   \<and> (\<forall>x \<in> set (initialState p # observed p (initialState p) es). consistent x)"
proof -
  have "\<forall>x \<in> set (initialState p # observed p (initialState p) es). consistent x"
    by (auto intro: consistent_initialState observed_consistent)
  then show ?thesis
    by (simp add: apply_effects_def setUser_def map_of_reducer Boolean_optional_id
          has_identity_iff initialState_def)
qed

theorem setUser_authenticated_consistent_witness:
  "map_of (apply_effects (initialState props0) (setUser JNull)) ''user'' = Some JNull
   \<and> map_of (apply_effects (initialState props0) (setUser JNull)) ''authenticated''
       = Some (JBool False)
   \<and> initialState props0
       \<in> set (initialState props0 # observed props0 (initialState props0) [Call (SetUser JNull)])
   \<and> consistent (initialState props0)"
  using setUser_authenticated_consistent
    [of "initialState props0" JNull props0 "[Call (SetUser JNull)]"]
  by simp

subsection \<open>Fields no callback writes\<close>

lemma dispatched_keys:
  "d \<in> set (dispatched (effects_of p e)) \<Longrightarrow>
   fst d \<in> {''user'', ''authenticated'', ''profile'', ''error'', ''view'', ''notifications''}"
proof (cases e)
  case (AuthStateChange c pr nr)
  assume "d \<in> set (dispatched (effects_of p e))"
  with AuthStateChange show ?thesis
    by (auto simp: onAuthStateChange_def setUser_def setProfile_def setNotifications_def
          split: option.splits settled.splits)
next
  case (PostgresChanges pl)
  assume "d \<in> set (dispatched (effects_of p e))"
  with PostgresChanges show ?thesis
    by (auto simp: postgres_changes_def setNotifications_def split: if_splits)
next
  case (Call c)
  assume "d \<in> set (dispatched (effects_of p e))"
  with Call show ?thesis
    by (cases c)
       (auto simp: setError_def setProfile_def setView_def setNotifications_def setUser_def)
next
  case (SignOut site pathName r)
  assume "d \<in> set (dispatched (effects_of p e))"
  with SignOut show ?thesis
    by (auto simp: actionSignOut_def setUser_def setProfile_def Let_def
          split: option.splits settled.splits)
qed

lemma snapshots_frame:
  "\<forall>d \<in> set (dispatched es). fst d \<noteq> k \<Longrightarrow> x \<in> set (snapshots s es) \<Longrightarrow>
   map_of x k = map_of s k"
  by (induction s es rule: snapshots.induct) (auto simp: map_of_reducer)

lemma snapshots_loading:
  assumes "x \<in> set (snapshots s (effects_of p e))"
  shows "map_of x ''loading'' = map_of s ''loading''"
proof (rule snapshots_frame [OF _ assms])
  show "\<forall>d \<in> set (dispatched (effects_of p e)). fst d \<noteq> ''loading''"
  proof
    fix d assume "d \<in> set (dispatched (effects_of p e))"
    from dispatched_keys [OF this] show "fst d \<noteq> ''loading''" by auto
  qed
qed

lemma observed_loading:
  "x \<in> set (observed p s es) \<Longrightarrow> map_of x ''loading'' = map_of s ''loading''"
proof (induction es arbitrary: s)
  case Nil
  then show ?case by simp
next
  case (Cons e es)
  have "map_of (step p s e) ''loading'' = map_of s ''loading''"
    using snapshots_loading step_in_snapshots by blast
  with Cons show ?case
    using snapshots_loading by auto
qed

lemma run_snoc: "run p (es @ [e]) = step p (run p es) e"
  by (simp add: run_def)

lemma run_loading: "map_of (run p es) ''loading'' = Some (JBool True)"
proof (induction es rule: rev_induct)
  case Nil
  show ?case by (simp add: run_def initialState_def)
next
  case (snoc e es)
  then show ?case
    using snapshots_loading [OF step_in_snapshots, of p "run p es" e]
    by (simp add: run_snoc)
qed

text \<open>
  C7, as the code has it. \<open>loading\<close> is true in the initial snapshot and stays
  true: after any sequence of auth events, change-feed events, setter calls and
  sign-outs, and in every snapshot a consumer can see on the way, \<open>loading\<close> is
  still true. No callback of the provider dispatches \<open>loading\<close>.
\<close>

theorem loading_stays_true:
  "map_of (initialState p) ''loading'' = Some (JBool True)
   \<and> map_of (run p es) ''loading'' = Some (JBool True)
   \<and> (\<forall>x \<in> set (observed p (initialState p) es). map_of x ''loading'' = Some (JBool True))"
proof -
  have i: "map_of (initialState p) ''loading'' = Some (JBool True)"
    by (simp add: initialState_def)
  then show ?thesis
    using observed_loading [of _ p "initialState p" es] by (simp add: run_loading)
qed

text \<open>
  C7 on a run: the snapshots seen while and after the first auth event, a session
  with both fetches fulfilled, all have \<open>loading\<close> true.
\<close>

theorem loading_stays_true_witness:
  "step props0 (initialState props0)
       (AuthStateChange (Some session0) (Fulfilled JNull) (Fulfilled []))
     \<in> set (observed props0 (initialState props0)
          [AuthStateChange (Some session0) (Fulfilled JNull) (Fulfilled [])])
   \<and> map_of (step props0 (initialState props0)
         (AuthStateChange (Some session0) (Fulfilled JNull) (Fulfilled []))) ''loading''
       = Some (JBool True)"
proof -
  let ?e = "AuthStateChange (Some session0) (Fulfilled JNull) (Fulfilled []) :: unit event"
  have m: "step props0 (initialState props0) ?e \<in> set (observed props0 (initialState props0) [?e])"
    using step_in_snapshots [of props0 "initialState props0" ?e] by simp
  with loading_stays_true [of props0 "[?e]"] show ?thesis by blast
qed

text \<open>
  C7 as stated fails: once the first auth event has been processed in full,
  \<open>loading\<close> is not false.
\<close>

theorem loading_false_after_auth_counterexample:
  "map_of (run props0 [AuthStateChange (Some session0) (Fulfilled JNull) (Fulfilled [])])
     ''loading'' \<noteq> Some (JBool False)"
  by (simp add: run_def step_def apply_effects_def onAuthStateChange_def setUser_def
        setProfile_def setNotifications_def map_of_reducer initialState_def)

lemma snapshots_error_signOut:
  "x \<in> set (snapshots s (fst (actionSignOut site pathName r))) \<Longrightarrow>
   map_of x ''error'' = map_of s ''error''"
  by (rule snapshots_frame)
     (auto simp: actionSignOut_def setUser_def setProfile_def Let_def
        split: option.splits settled.splits)

lemma snapshots_error_auth:
  "x \<in> set (snapshots s (fst (onAuthStateChange c pr nr))) \<Longrightarrow>
   map_of x ''error'' = map_of s ''error''"
  by (rule snapshots_frame)
     (auto simp: onAuthStateChange_def setUser_def setProfile_def setNotifications_def
        split: option.splits settled.splits)

lemma snapshots_error_feed:
  "x \<in> set (snapshots s (postgres_changes p pl)) \<Longrightarrow>
   map_of x ''error'' = map_of s ''error''"
  by (rule snapshots_frame) (auto simp: postgres_changes_def setNotifications_def)

lemma setter_keys_not_error:
  "\<forall>m. c \<noteq> SetError m \<Longrightarrow> d \<in> set (dispatched (setter_effects c)) \<Longrightarrow> fst d \<noteq> ''error''"
  by (cases c) (auto simp: setProfile_def setView_def setNotifications_def setUser_def)

lemma snapshots_error_setter:
  assumes "\<forall>m. c \<noteq> SetError m" and "x \<in> set (snapshots s (setter_effects c))"
  shows "map_of x ''error'' = map_of s ''error''"
proof (rule snapshots_frame [OF _ assms(2)])
  show "\<forall>d \<in> set (dispatched (setter_effects c)). fst d \<noteq> ''error''"
    using setter_keys_not_error [OF assms(1)] by blast
qed

lemma snapshots_error_other:
  assumes "\<forall>m. e \<noteq> Call (SetError m)" and "x \<in> set (snapshots s (effects_of p e))"
  shows "map_of x ''error'' = map_of s ''error''"
proof (cases e)
  case (AuthStateChange c pr nr)
  with assms(2) show ?thesis by (simp add: snapshots_error_auth)
next
  case (PostgresChanges pl)
  with assms(2) show ?thesis by (simp add: snapshots_error_feed)
next
  case (Call c)
  with assms(1) have "\<forall>m. c \<noteq> SetError m" by simp
  with Call assms(2) show ?thesis by (simp add: snapshots_error_setter)
next
  case (SignOut site pathName r)
  with assms(2) show ?thesis by (simp add: snapshots_error_signOut)
qed

text \<open>
  C8, as the code has it. \<open>error\<close> is empty in the initial snapshot and
  \<open>setError m\<close> replaces it by \<open>m\<close>. Every other event leaves it as it was, in
  every snapshot the event produces and however its awaited calls settle: an auth
  event, a change-feed event, \<open>setProfile\<close>, \<open>setView\<close>, \<open>setNotifications\<close>,
  \<open>setUser\<close> and sign-out. No success path clears it.
\<close>

theorem error_left_as_it_was:
  "map_of (initialState p) ''error'' = Some (JStr [])
   \<and> map_of (step p s (Call (SetError m))) ''error'' = Some (JStr m)
   \<and> ((\<forall>m'. e \<noteq> Call (SetError m')) \<longrightarrow>
        map_of (step p s e) ''error'' = map_of s ''error''
        \<and> (\<forall>x \<in> set (snapshots s (effects_of p e)). map_of x ''error'' = map_of s ''error''))
   \<and> (\<forall>x \<in> set (snapshots s (fst (actionSignOut site pathName r))).
         map_of x ''error'' = map_of s ''error'')
   \<and> (\<forall>x \<in> set (snapshots s (fst (onAuthStateChange c pr nr))).
         map_of x ''error'' = map_of s ''error'')"
proof -
  have "map_of (step p s (Call (SetError m))) ''error'' = Some (JStr m)"
    by (simp add: step_def apply_effects_def setError_def map_of_reducer)
  moreover have "map_of (step p s e) ''error'' = map_of s ''error''"
    if "\<forall>m'. e \<noteq> Call (SetError m')"
    using snapshots_error_other [OF that step_in_snapshots] .
  moreover have "\<forall>x \<in> set (snapshots s (effects_of p e)). map_of x ''error'' = map_of s ''error''"
    if "\<forall>m'. e \<noteq> Call (SetError m')"
    using snapshots_error_other [OF that] by blast
  ultimately show ?thesis
    using snapshots_error_signOut [of _ s site pathName r] snapshots_error_auth [of _ s c pr nr]
    by (simp add: initialState_def)
qed

text \<open>
  C8 on a run: with \<open>error\<close> set to \<open>boom\<close>, the snapshot after an auth event
  with a session and both fetches fulfilled still has \<open>boom\<close>.
\<close>

theorem error_left_as_it_was_witness:
  "map_of (step props0 (step props0 (initialState props0) (Call (SetError ''boom'')))
       (AuthStateChange (Some session0) (Fulfilled JNull) (Fulfilled []))) ''error''
     = Some (JStr ''boom'')"
proof -
  let ?s = "step props0 (initialState props0) (Call (SetError ''boom'')) :: unit state"
  let ?e = "AuthStateChange (Some session0) (Fulfilled JNull) (Fulfilled []) :: unit event"
  have h: "\<forall>m'. ?e \<noteq> Call (SetError m')" by simp
  from error_left_as_it_was [of props0 "initialState props0" "''boom''"]
  have b: "map_of ?s ''error'' = Some (JStr ''boom'')" by blast
  from error_left_as_it_was [of props0 ?s "''boom''" ?e] h
  have "map_of (step props0 ?s ?e) ''error'' = map_of ?s ''error''" by blast
  with b show ?thesis by simp
qed

text \<open>
  C8 as stated fails: an auth event processed with success leaves a non-empty
  \<open>error\<close> in the snapshot.
\<close>

theorem error_cleared_counterexample:
  "map_of (run props0 [Call (SetError ''boom''),
                       AuthStateChange (Some session0) (Fulfilled JNull) (Fulfilled [])]) ''error''
     = Some (JStr ''boom'')
   \<and> map_of (run props0 [Call (SetError ''boom''),
                       AuthStateChange (Some session0) (Fulfilled JNull) (Fulfilled [])]) ''error''
     \<noteq> Some (JStr [])"
  by (simp add: run_def step_def apply_effects_def onAuthStateChange_def
        setError_def setUser_def setProfile_def setNotifications_def map_of_reducer
        initialState_def)

subsection \<open>Sign-out\<close>






text \<open>
  Which pathname the callback of the context value holds: a route change leaves it,
  an input that dispatches brings it up to the pathname of the render.
\<close>

lemma value_pathName_route_change:
  "value_pathName (next_mounted p m (RouteChange x)) = value_pathName m
   \<and> current_pathName (next_mounted p m (RouteChange x)) = x"
  by simp

lemma value_pathName_after_dispatch:
  "dispatched (input_effects p m i) \<noteq> [] \<Longrightarrow>
   value_pathName (next_mounted p m i) = current_pathName m"
  by (cases i) (simp_all add: Let_def)

text \<open>
  On a run: mounted at \<open>/dashboard\<close>, a route change to \<open>/settings\<close> with no
  dispatch after it, then sign-out. The context value still holds the callback made
  at \<open>/dashboard\<close>, and \<open>redirectTo\<close> is \<open>/dashboard\<close> where the pathname of the
  last render is \<open>/settings\<close>: the dependency list of the context value names
  \<open>state\<close> alone.
\<close>

lemma signOut_after_route_change:
  "current_pathName (mounted_run props0 ''/dashboard'' [RouteChange ''/settings'']) = ''/settings''
   \<and> input_effects props0 (mounted_run props0 ''/dashboard'' [RouteChange ''/settings''])
        (SignOutInput (Some site0) (Fulfilled None)) =
     [AuthSignOut,
       RouterReplace ''https://example.com/?redirectTo=%2Fdashboard'',
       Dispatch ''user'' JNull,
       Dispatch ''authenticated'' (JBool False),
       Dispatch ''profile'' JNull,
       ToastSuccess ''You have been signed out'']"
proof -
  have "toString (redirect_target site0 ''/dashboard'') =
          ''https://example.com/?redirectTo=%2Fdashboard''"
    by code_simp
  then show ?thesis
    by (simp add: mounted_run_def mount_def actionSignOut_def setUser_def setProfile_def
          redirect_target_def)
qed




subsection \<open>The change-feed subscription\<close>

lemma channel_filter_throws_iff:
  "channel_filter s = Inl TypeError \<longleftrightarrow>
     state_get s ''user'' = JNull \<or> state_get s ''user'' = JUndefined"
  by (cases "state_get s ''user''") (simp_all add: channel_filter_def)

lemma user_after_no_session:
  "state_get (step p s (AuthStateChange None pr nr)) ''user'' = JNull"
  by (simp add: step_def apply_effects_def onAuthStateChange_def setUser_def setProfile_def
        setNotifications_def state_get_def map_of_reducer)

lemma user_after_signOut:
  "state_get (step p s (SignOut (Some u) pathName (Fulfilled e))) ''user'' = JNull"
  by (simp add: step_def apply_effects_def actionSignOut_def setUser_def setProfile_def
        state_get_def map_of_reducer)

text \<open>
  C9. Building the subscription filter reads \<open>state.user.id\<close> with no guard: it
  throws exactly when \<open>user\<close> is null or undefined. Such a snapshot is reached from
  any run by an auth event without a session, and by a sign-out whose promise is
  fulfilled.
\<close>

theorem channel_filter_throws_on_empty_user:
  "(channel_filter s = Inl TypeError \<longleftrightarrow>
      state_get s ''user'' = JNull \<or> state_get s ''user'' = JUndefined)
   \<and> channel_filter (run p (es @ [AuthStateChange None pr nr])) = Inl TypeError
   \<and> channel_filter (run p (es @ [SignOut (Some u) pathName (Fulfilled e)])) = Inl TypeError"
  by (simp add: channel_filter_throws_iff run_snoc user_after_no_session user_after_signOut)

text \<open>
  C9 on runs: the filter is built for the initial user \<open>u1\<close>, and throws after one
  auth event without a session and after one sign-out.
\<close>

theorem channel_filter_throws_on_empty_user_witness:
  "channel_filter (initialState props0) = Inr ''to=eq.u1''
   \<and> channel_filter (run props0 [AuthStateChange None Rejected Rejected]) = Inl TypeError
   \<and> channel_filter (run props0 [SignOut (Some site0) ''/dashboard'' (Fulfilled None)])
       = Inl TypeError"
  using channel_filter_throws_on_empty_user
    [of "initialState props0" props0 "[]" Rejected Rejected site0 "''/dashboard''" None]
  by (simp add: channel_filter_def state_get_def initialState_def props0_def)

text \<open>
  C10. A change-feed event whose \<open>eventType\<close> is none of \<open>INSERT\<close>, \<open>UPDATE\<close>,
  \<open>DELETE\<close> is logged and nothing else: no dispatch, so the state (its
  notifications with it) is the same, and no notice.
\<close>

theorem postgres_changes_other_event_ignored:
  "eventType pl \<notin> {''INSERT'', ''UPDATE'', ''DELETE''} \<Longrightarrow>
     postgres_changes p pl = [ConsoleLog]
     \<and> step p s (PostgresChanges pl) = s
     \<and> snapshots s (postgres_changes p pl) = [s]
     \<and> (\<forall>m. ToastSuccess m \<notin> set (postgres_changes p pl))"
  by (simp add: postgres_changes_def step_def apply_effects_def)

text \<open>C10 on an event of type \<open>TRUNCATE\<close>.\<close>

theorem postgres_changes_other_event_ignored_witness:
  "eventType (change ''TRUNCATE'' (mk_notification ''n1'' ''Hi''))
     \<notin> {''INSERT'', ''UPDATE'', ''DELETE''}
   \<and> postgres_changes props0 (change ''TRUNCATE'' (mk_notification ''n1'' ''Hi'')) = [ConsoleLog]
   \<and> step props0 (initialState props0)
        (PostgresChanges (change ''TRUNCATE'' (mk_notification ''n1'' ''Hi'')))
       = initialState props0"
proof -
  have h: "eventType (change ''TRUNCATE'' (mk_notification ''n1'' ''Hi''))
             \<notin> {''INSERT'', ''UPDATE'', ''DELETE''}"
    by (simp add: change_def)
  from postgres_changes_other_event_ignored [OF h, of props0 "initialState props0"] h
  show ?thesis by simp
qed

text \<open>
  What the three handled kinds of event write: the list computed from the
  \<open>notifications\<close> of the props, whatever the state holds.
\<close>

lemma notifications_after_insert:
  "eventType pl = ''INSERT'' \<Longrightarrow>
   map_of (step p s (PostgresChanges pl)) ''notifications''
     = Some (JNotifications (notifications p @ [new pl]))"
  by (simp add: step_def apply_effects_def postgres_changes_def setNotifications_def
        map_of_reducer)

lemma notifications_after_update:
  "eventType pl = ''UPDATE'' \<Longrightarrow>
   map_of (step p s (PostgresChanges pl)) ''notifications''
     = Some (JNotifications
         (map (\<lambda>n. if n_id n = n_id (new pl) then new pl else n) (notifications p)))"
  by (simp add: step_def apply_effects_def postgres_changes_def setNotifications_def
        map_of_reducer)

lemma notifications_after_delete:
  "eventType pl = ''DELETE'' \<Longrightarrow>
   map_of (step p s (PostgresChanges pl)) ''notifications''
     = Some (JNotifications (filter (\<lambda>t. n_id t \<noteq> n_id (old pl)) (notifications p)))"
  by (simp add: step_def apply_effects_def postgres_changes_def setNotifications_def
        map_of_reducer)

text \<open>
  C4 at a failing input. The provider starts with no notifications; the change feed
  inserts \<open>n1\<close>, then \<open>n2\<close>. The second insert appends to the list of the props,
  not to the current list: the state holds \<open>n2\<close> alone, where the current list with
  \<open>n2\<close> appended is \<open>n1\<close>, \<open>n2\<close>.
\<close>

theorem insert_forgets_earlier_insert:
  "map_of (run props0
       [PostgresChanges (change ''INSERT'' (mk_notification ''n1'' ''Hi'')),
        PostgresChanges (change ''INSERT'' (mk_notification ''n2'' ''Again''))])
     ''notifications''
   = Some (JNotifications [mk_notification ''n2'' ''Again''])"
  by (simp add: run_def step_def apply_effects_def postgres_changes_def setNotifications_def
        map_of_reducer change_def props0_def)

text \<open>
  C5 at a failing input. The provider starts with no notifications and an auth event
  loads \<open>n1\<close>. An update, or a delete, for the unknown id \<open>n9\<close> then replaces the
  current list by the list of the props: \<open>n1\<close> is gone, where the sequence should be
  unchanged.
\<close>

theorem update_delete_unknown_id_reset_sequence:
  "map_of (run props0
       [AuthStateChange (Some session0) (Fulfilled JNull)
          (Fulfilled [mk_notification ''n1'' ''Hi'']),
        PostgresChanges (change ''UPDATE'' (mk_notification ''n9'' ''Other''))])
     ''notifications''
   = Some (JNotifications [])
   \<and> map_of (run props0
       [AuthStateChange (Some session0) (Fulfilled JNull)
          (Fulfilled [mk_notification ''n1'' ''Hi'']),
        PostgresChanges (change ''DELETE'' (mk_notification ''n9'' ''Other''))])
     ''notifications''
   = Some (JNotifications [])
   \<and> map_of (run props0
       [AuthStateChange (Some session0) (Fulfilled JNull)
          (Fulfilled [mk_notification ''n1'' ''Hi''])])
     ''notifications''
   = Some (JNotifications [mk_notification ''n1'' ''Hi''])"
  by (simp add: run_def step_def apply_effects_def postgres_changes_def onAuthStateChange_def
        setUser_def setProfile_def setNotifications_def map_of_reducer change_def props0_def)

subsection \<open>The hook\<close>

lemma useAuth_throws_iff:
  "(\<exists>e. useAuth provider = Inl e) \<longleftrightarrow> provider = Some CtxUndefined"
  by (cases provider) (auto simp: useAuth_def useContext_def AuthContext_def Let_def)

text \<open>
  C6 at the failing input. With no provider above the caller, \<open>useContext\<close>
  returns the default \<open>[null, null]\<close>, which is not \<open>undefined\<close>: \<open>useAuth\<close> does
  not throw and returns the pair of nulls.
\<close>

theorem useAuth_without_provider_returns_default:
  "useAuth None = Inr (CtxPair None None)"
  by (simp add: useAuth_def useContext_def AuthContext_def)


end
